theory Spec2Isabelle
  imports Main "HOL-Library.Word"
begin

section \<open>Automatic candy dispenser: the control loop of Dispenser.ino\<close>

text \<open>
  The sketch runs on an ATmega board (Arduino Uno), where the C++ type \<open>int\<close> is a 16-bit
  two's complement integer and \<open>long\<close> a 32-bit one. Values of type \<open>int\<close> are modelled as
  \<open>16 word\<close> and compared through \<open>sint\<close>. C++ leaves signed overflow undefined; \<open>+\<close> on
  words wraps around, as the addition that avr-gcc emits for
  \<open>currThreshold = currThreshold + 1\<close> does. Nothing below depends on overflow except where
  a run of more than 32767 near samples is named.
\<close>

type_synonym cint = "16 word"
type_synonym clong = "32 word"

subsection \<open>Pin assignments and configuration\<close>

definition stepPin :: nat where "stepPin = 2"
definition dirPin :: nat where "dirPin = 3"
definition trigPin :: nat where "trigPin = 9"
definition echoPin :: nat where "echoPin = 10"
definition buttonPin :: nat where "buttonPin = 5"
definition buzzerPin :: nat where "buzzerPin = 11"

definition LOW :: cint where "LOW = 0"
definition HIGH :: cint where "HIGH = 1"

definition stepsPerRevolution :: cint where "stepsPerRevolution = 100"
definition Threshold :: cint where "Threshold = 2"

subsection \<open>Hardware operations issued by the helper functions\<close>

datatype hw_op =
    DigitalWrite nat cint
  | DelayMicroseconds nat
  | DelayMillis nat
  | Tone nat nat
  | NoTone nat

text \<open>
  The body shared by the two stepper loops: one step pulse. The two delays are the
  literals of the source; they are parameters here so that the effect of changing the
  timing of one motion can be stated.
\<close>

definition step_pulse :: "nat \<Rightarrow> nat \<Rightarrow> hw_op list" where
  "step_pulse hi lo =
     [DigitalWrite stepPin HIGH, DelayMicroseconds hi,
      DigitalWrite stepPin LOW, DelayMicroseconds lo]"

text \<open>\<open>for (int i = ...; i < n; i++) { pulse }\<close> with a 16-bit loop variable.\<close>

function step_loop :: "nat \<Rightarrow> nat \<Rightarrow> cint \<Rightarrow> cint \<Rightarrow> hw_op list" where
  "step_loop hi lo i n =
     (if sint i < sint n then step_pulse hi lo @ step_loop hi lo (i + 1) n else [])"
  by pat_completeness auto

termination
proof (relation "measure (\<lambda>(hi, lo, i, n). nat (sint n - sint i))")
  show "wf (measure (\<lambda>(hi :: nat, lo :: nat, i :: cint, n :: cint). nat (sint n - sint i)))"
    by simp
next
  fix hi lo :: nat and i n :: cint
  assume lt: "sint i < sint n"
  have "sint (i + 1) = sint i + 1"
    using lt sint_less [of n] sint_greater_eq [of i]
    by (simp add: sint_word_ariths signed_take_bit_int_eq_self)
  with lt show "((hi, lo, i + 1, n), (hi, lo, i, n))
      \<in> measure (\<lambda>(hi, lo, i, n). nat (sint n - sint i))"
    by simp
qed

declare step_loop.simps [simp del]

text \<open>
  The compile-time constants that size the two motions. \<open>cfg_steps\<close> is
  \<open>stepsPerRevolution\<close>, read by both motions; \<open>cfg_mult\<close> is the \<open>* 2\<close> of
  \<open>rotateStepper\<close>; the four delays are the \<open>delayMicroseconds\<close> literals.
\<close>

record motion_cfg =
  cfg_steps :: cint
  cfg_mult :: cint
  cfg_rot_hi :: nat
  cfg_rot_lo :: nat
  cfg_ret_hi :: nat
  cfg_ret_lo :: nat

definition source_cfg :: motion_cfg where
  "source_cfg = \<lparr> cfg_steps = stepsPerRevolution, cfg_mult = 2,
                  cfg_rot_hi = 5000, cfg_rot_lo = 5000,
                  cfg_ret_hi = 5000, cfg_ret_lo = 5000 \<rparr>"

definition rotateStepper_cfg :: "motion_cfg \<Rightarrow> hw_op list" where
  "rotateStepper_cfg c =
     DigitalWrite dirPin LOW #
     step_loop (cfg_rot_hi c) (cfg_rot_lo c) 0 (cfg_steps c * cfg_mult c)"

definition retractStepper_cfg :: "motion_cfg \<Rightarrow> hw_op list" where
  "retractStepper_cfg c =
     DigitalWrite dirPin HIGH #
     step_loop (cfg_ret_hi c) (cfg_ret_lo c) 0 (cfg_steps c)"

definition rotateStepper :: "hw_op list" where
  "rotateStepper = rotateStepper_cfg source_cfg"

definition retractStepper :: "hw_op list" where
  "retractStepper = retractStepper_cfg source_cfg"

definition beep :: "nat \<Rightarrow> nat \<Rightarrow> hw_op list" where
  "beep btone bDelay =
     [Tone buzzerPin btone, DelayMillis bDelay, NoTone buzzerPin, DelayMillis bDelay]"

text \<open>The time a sequence of operations spends in its delays, in microseconds.\<close>

fun op_us :: "hw_op \<Rightarrow> nat" where
  "op_us (DelayMicroseconds n) = n"
| "op_us (DelayMillis n) = 1000 * n"
| "op_us _ = 0"

definition duration_us :: "hw_op list \<Rightarrow> nat" where
  "duration_us ops = sum_list (map op_us ops)"

text \<open>The number of step pulses (rising edges on the STEP pin) in a sequence.\<close>

definition step_count :: "hw_op list \<Rightarrow> nat" where
  "step_count ops = length (filter (\<lambda>x. x = DigitalWrite stepPin HIGH) ops)"

subsection \<open>The ultrasonic sensor\<close>

text \<open>
  \<open>pulseIn\<close> belongs to the Arduino core: it returns the width of the echo pulse in
  microseconds, and 0 when no pulse arrives before its timeout.
\<close>

datatype echo = NoEcho | Echo clong

definition pulseIn :: "echo \<Rightarrow> clong" where
  "pulseIn e = (case e of NoEcho \<Rightarrow> 0 | Echo w \<Rightarrow> w)"

text \<open>C++ division and the conversion to \<open>int\<close> truncate towards zero.\<close>

definition trunc_div :: "int \<Rightarrow> int \<Rightarrow> int" where
  "trunc_div a b = sgn a * sgn b * (\<bar>a\<bar> div \<bar>b\<bar>)"

text \<open>The trigger pulse that \<open>getDistance\<close> sends before it measures.\<close>

definition getDistance_ops :: "hw_op list" where
  "getDistance_ops =
     [DigitalWrite trigPin LOW, DelayMicroseconds 2,
      DigitalWrite trigPin HIGH, DelayMicroseconds 10,
      DigitalWrite trigPin LOW]"

text \<open>
  \<open>int distance = duration * 0.034 / 2\<close>, for the \<open>duration\<close> that \<open>pulseIn\<close> returns. The
  source computes the product in floating point; the model computes it exactly and
  keeps the low 16 bits. Both give 0 for a duration of 0, the only value the statements
  below depend on.
\<close>

definition getDistance :: "echo \<Rightarrow> cint" where
  "getDistance e =
     (let duration = pulseIn e
      in word_of_int (trunc_div (sint duration * 34) 2000))"

subsection \<open>The control loop\<close>

record state =
  buttonState :: cint
  buttonIsActive :: bool
  currThreshold :: cint

definition power_on :: state where
  "power_on = \<lparr> buttonState = 0, buttonIsActive = False, currThreshold = 0 \<rparr>"

text \<open>What one pass of \<open>loop()\<close> calls, in order.\<close>

datatype action =
    RotateStepper
  | RetractStepper
  | Beep nat nat
  | Delay nat
  | SerialPrint string
  | SerialPrintln string
  | SerialPrintlnInt cint

text \<open>\<open>for (int i = 0; i < 1; i++) { rotateStepper(); delay(10); retractStepper(); }\<close>\<close>

function dispense_loop :: "cint \<Rightarrow> action list" where
  "dispense_loop i =
     (if sint i < 1 then [RotateStepper, Delay 10, RetractStepper] @ dispense_loop (i + 1)
      else [])"
  by pat_completeness auto

termination
proof (relation "measure (\<lambda>i. nat (1 - sint i))")
  show "wf (measure (\<lambda>i :: cint. nat (1 - sint i)))" by simp
next
  fix i :: cint
  assume lt: "sint i < 1"
  have "sint (i + 1) = sint i + 1"
    using lt sint_greater_eq [of i]
    by (simp add: sint_word_ariths signed_take_bit_int_eq_self)
  with lt show "(i + 1, i) \<in> measure (\<lambda>i. nat (1 - sint i))" by simp
qed

declare dispense_loop.simps [simp del]

text \<open>
  One pass of \<open>loop()\<close>. \<open>b\<close> is what \<open>digitalRead(buttonPin)\<close> returns and \<open>distance\<close>
  what \<open>getDistance()\<close> returns in this pass. The result is the new values of the
  globals and the calls made.
\<close>

definition loop :: "state \<Rightarrow> cint \<Rightarrow> cint \<Rightarrow> state \<times> action list" where
  "loop s b distance =
     (let s1 = s\<lparr>buttonState := b\<rparr>;
          (s2, t1) = (if buttonState s1 = HIGH
                      then (s1\<lparr>buttonIsActive := True\<rparr>, [RotateStepper])
                      else (s1\<lparr>buttonIsActive := False\<rparr>, []));
          t2 = [SerialPrint ''Value: '', SerialPrintlnInt distance];
          (s3, t3) = (if sint distance < 30
                      then (s2\<lparr>currThreshold := currThreshold s2 + 1\<rparr>,
                            [SerialPrintln ''upping one''])
                      else (s2\<lparr>currThreshold := 0\<rparr>, [SerialPrintln ''Cancelling'']));
          t4 = (if currThreshold s3 = Threshold \<and> \<not> buttonIsActive s3
                then [SerialPrintln ''RAN'', Beep 1000 500] @ dispense_loop 0 @
                     [Delay 3000, Beep 3000 80, Beep 3000 80]
                else []);
          t5 = (if 3 < sint (currThreshold s3)
                then [Beep 500 1000, SerialPrintln ''delaying, object blocking sensor'']
                else [])
      in (s3, t1 @ t2 @ t3 @ t4 @ t5 @ [Delay 100]))"

text \<open>The hardware operations behind a call; the log lines touch no pin.\<close>

fun expand :: "action \<Rightarrow> hw_op list" where
  "expand RotateStepper = rotateStepper"
| "expand RetractStepper = retractStepper"
| "expand (Beep btone bDelay) = beep btone bDelay"
| "expand (Delay ms) = [DelayMillis ms]"
| "expand _ = []"

text \<open>One pass with the sensor read included.\<close>

definition loop_hw :: "state \<Rightarrow> cint \<Rightarrow> echo \<Rightarrow> state \<times> action list" where
  "loop_hw s b e = loop s b (getDistance e)"

text \<open>
  Running the loop over a sequence of inputs (button level, distance), one pair per
  pass: the state and the calls of every pass, and the state after the last one.
\<close>

primrec cycles :: "state \<Rightarrow> (cint \<times> cint) list \<Rightarrow> (state \<times> action list) list" where
  "cycles s [] = []"
| "cycles s (x # xs) = loop s (fst x) (snd x) # cycles (fst (loop s (fst x) (snd x))) xs"

primrec final :: "state \<Rightarrow> (cint \<times> cint) list \<Rightarrow> state" where
  "final s [] = s"
| "final s (x # xs) = final (fst (loop s (fst x) (snd x))) xs"

subsection \<open>Observations\<close>

definition near :: "cint \<Rightarrow> bool" where
  "near d \<longleftrightarrow> sint d < 30"

text \<open>The length of the longest suffix of near samples.\<close>

definition near_run :: "cint list \<Rightarrow> nat" where
  "near_run ds = length (takeWhile near (rev ds))"

text \<open>
  The calls of a pass without its log lines, and the calls that drive the motor or the
  buzzer.
\<close>

fun is_serial :: "action \<Rightarrow> bool" where
  "is_serial (SerialPrint _) = True"
| "is_serial (SerialPrintln _) = True"
| "is_serial (SerialPrintlnInt _) = True"
| "is_serial _ = False"

fun is_actuator :: "action \<Rightarrow> bool" where
  "is_actuator RotateStepper = True"
| "is_actuator RetractStepper = True"
| "is_actuator (Beep _ _) = True"
| "is_actuator _ = False"

definition calls :: "action list \<Rightarrow> action list" where
  "calls tr = filter (\<lambda>a. \<not> is_serial a) tr"

definition actuation :: "action list \<Rightarrow> action list" where
  "actuation tr = filter is_actuator tr"

text \<open>
  The automatic dispense: pre-beep, one dispense motion, short pause, one retract motion,
  pause, two confirmation beeps. The block warning: one long low beep.
\<close>

definition auto_seq :: "action list" where
  "auto_seq = [Beep 1000 500, RotateStepper, Delay 10, RetractStepper,
               Delay 3000, Beep 3000 80, Beep 3000 80]"

definition warn_seq :: "action list" where
  "warn_seq = [Beep 500 1000]"

fun starts_with :: "'a list \<Rightarrow> 'a list \<Rightarrow> bool" where
  "starts_with [] ys = True"
| "starts_with (x # xs) [] = False"
| "starts_with (x # xs) (y # ys) = (x = y \<and> starts_with xs ys)"

fun contains_seq :: "'a list \<Rightarrow> 'a list \<Rightarrow> bool" where
  "contains_seq p [] = (p = [])"
| "contains_seq p (y # ys) = (starts_with p (y # ys) \<or> contains_seq p ys)"

text \<open>A pass fires the automatic dispense, or the block warning.\<close>

definition auto_dispensed :: "action list \<Rightarrow> bool" where
  "auto_dispensed tr = contains_seq auto_seq (calls tr)"

definition block_warned :: "action list \<Rightarrow> bool" where
  "block_warned tr = contains_seq warn_seq (calls tr)"

text \<open>The passes of a run in which the automatic dispense fires.\<close>

definition dispense_count :: "(state \<times> action list) list \<Rightarrow> nat" where
  "dispense_count rs = length (filter (\<lambda>r. auto_dispensed (snd r)) rs)"

section \<open>Properties of one pass\<close>

lemma sint_succ: "sint (i :: cint) < sint (n :: cint) \<Longrightarrow> sint (i + 1) = sint i + 1"
  using sint_less [of n] sint_greater_eq [of i]
  by (simp add: sint_word_ariths signed_take_bit_int_eq_self)

lemma dispense_loop_0: "dispense_loop 0 = [RotateStepper, Delay 10, RetractStepper]"
  by (simp add: dispense_loop.simps [of 0] dispense_loop.simps [of 1])

lemma loop_state:
  "fst (loop s b d) =
     \<lparr> buttonState = b, buttonIsActive = (b = HIGH),
       currThreshold = (if near d then currThreshold s + 1 else 0) \<rparr>"
  by (simp add: loop_def near_def Let_def split: prod.splits)

lemma loop_counter:
  "currThreshold (fst (loop s b d)) = (if near d then currThreshold s + 1 else 0)"
  by (simp add: loop_state)

lemma loop_calls:
  "calls (snd (loop s b d)) =
     (if b = HIGH then [RotateStepper] else []) @
     (if currThreshold (fst (loop s b d)) = Threshold \<and> b \<noteq> HIGH then auto_seq else []) @
     (if 3 < sint (currThreshold (fst (loop s b d))) then warn_seq else []) @
     [Delay 100]"
  by (simp add: loop_def near_def Let_def calls_def auto_seq_def warn_seq_def dispense_loop_0
      split: prod.splits)

lemma loop_actuation:
  "actuation (snd (loop s b d)) =
     (if b = HIGH then [RotateStepper] else []) @
     (if currThreshold (fst (loop s b d)) = Threshold \<and> b \<noteq> HIGH
      then [Beep 1000 500, RotateStepper, RetractStepper, Beep 3000 80, Beep 3000 80]
      else []) @
     (if 3 < sint (currThreshold (fst (loop s b d))) then [Beep 500 1000] else [])"
  by (simp add: loop_def near_def Let_def actuation_def dispense_loop_0 split: prod.splits)

lemma loop_auto_dispensed:
  "auto_dispensed (snd (loop s b d)) \<longleftrightarrow>
     currThreshold (fst (loop s b d)) = Threshold \<and> b \<noteq> HIGH"
  unfolding auto_dispensed_def loop_calls
  by (simp add: auto_seq_def warn_seq_def)

lemma loop_block_warned:
  "block_warned (snd (loop s b d)) \<longleftrightarrow> 3 < sint (currThreshold (fst (loop s b d)))"
  unfolding block_warned_def loop_calls
  by (simp add: auto_seq_def warn_seq_def)

section \<open>Properties of a sequence of passes\<close>

lemma length_cycles: "length (cycles s xs) = length xs"
  by (induction xs arbitrary: s) simp_all

lemma final_append: "final s (xs @ ys) = final (final s xs) ys"
  by (induction xs arbitrary: s) simp_all

lemma final_snoc: "final s (xs @ [x]) = fst (loop (final s xs) (fst x) (snd x))"
  by (simp add: final_append)

lemma cycles_append: "cycles s (xs @ ys) = cycles s xs @ cycles (final s xs) ys"
  by (induction xs arbitrary: s) simp_all

lemma cycles_nth:
  "i < length xs \<Longrightarrow>
     cycles s xs ! i = loop (final s (take i xs)) (fst (xs ! i)) (snd (xs ! i))"
proof (induction xs arbitrary: s i)
  case Nil
  then show ?case by simp
next
  case (Cons x xs)
  then show ?case by (cases i) simp_all
qed

text \<open>Over near samples only, the counter advances by the number of passes, modulo \<open>2^16\<close>.\<close>

lemma final_all_near:
  "\<forall>x\<in>set xs. near (snd x) \<Longrightarrow>
     currThreshold (final s xs) = currThreshold s + word_of_nat (length xs)"
  by (induction xs arbitrary: s) (simp_all add: loop_counter)

lemma near_run_snoc:
  "near_run (ds @ [d]) = (if near d then Suc (near_run ds) else 0)"
  by (simp add: near_run_def)

text \<open>
  From a counter of 0 the counter is the length of the current run of near samples,
  modulo \<open>2^16\<close>; the button plays no part.
\<close>

lemma final_counter:
  "currThreshold s = 0 \<Longrightarrow>
     currThreshold (final s xs) = word_of_nat (near_run (map snd xs))"
proof (induction xs rule: rev_induct)
  case Nil
  then show ?case by (simp add: near_run_def)
next
  case (snoc x xs)
  then show ?case
    by (simp add: final_snoc loop_counter near_run_snoc)
qed

lemma sint_of_nat_small: "n < 32768 \<Longrightarrow> sint (word_of_nat n :: cint) = int n"
  by (simp add: signed_of_nat signed_take_bit_int_eq_self)

text \<open>As long as the run is shorter than \<open>2^15\<close> passes, the counter is its length.\<close>

lemma counter_is_run_length_below_wrap:
  "currThreshold s = 0 \<Longrightarrow> near_run (map snd xs) < 32768 \<Longrightarrow>
     sint (currThreshold (final s xs)) = int (near_run (map snd xs))"
  by (simp add: final_counter sint_of_nat_small)

lemma of_nat_eq_2: "n < 65538 \<Longrightarrow> (word_of_nat n :: cint) = 2 \<longleftrightarrow> n = 2"
proof -
  assume b: "n < 65538"
  have "(word_of_nat n :: cint) = 2 \<longleftrightarrow> (word_of_nat n :: cint) = word_of_nat 2"
    by simp
  also have "\<dots> \<longleftrightarrow> n mod 65536 = 2"
    unfolding word_of_nat_eq_iff by (simp add: take_bit_eq_mod)
  also have "\<dots> \<longleftrightarrow> n = 2"
  proof (cases "n < 65536")
    case True
    then show ?thesis by simp
  next
    case False
    with b have "n = 65536 \<or> n = 65537" by linarith
    then show ?thesis by auto
  qed
  finally show ?thesis .
qed

text \<open>A run starts at power-on or right after a sample that is not near: the counter is 0.\<close>

lemma run_start:
  "pre = [] \<or> \<not> near (snd (last pre)) \<Longrightarrow> currThreshold (final power_on pre) = 0"
proof (cases pre rule: rev_cases)
  case Nil
  then show ?thesis by (simp add: power_on_def)
next
  case (snoc ys y)
  assume "pre = [] \<or> \<not> near (snd (last pre))"
  with snoc show ?thesis by (simp add: final_snoc loop_counter)
qed

lemma run_pass:
  assumes z: "currThreshold s = 0"
    and nr: "\<forall>x\<in>set run. near (snd x)"
    and i: "i < length run"
  shows "currThreshold (fst (cycles s run ! i)) = word_of_nat (Suc i)"
proof -
  have "\<forall>x\<in>set (take i run). near (snd x)"
    using nr by (meson in_set_takeD)
  then have "currThreshold (final s (take i run)) = word_of_nat i"
    using z i by (simp add: final_all_near)
  moreover have "near (snd (run ! i))" using nr i by simp
  ultimately show ?thesis using i by (simp add: cycles_nth loop_counter)
qed

lemma run_fires:
  assumes z: "currThreshold s = 0"
    and nr: "\<forall>x\<in>set run. near (snd x)"
    and len: "length run \<le> 65537"
    and i: "i < length run"
  shows "auto_dispensed (snd (cycles s run ! i)) \<longleftrightarrow> i = 1 \<and> fst (run ! 1) \<noteq> HIGH"
proof -
  have c: "currThreshold (fst (cycles s run ! i)) = word_of_nat (Suc i)"
    using z nr i by (rule run_pass)
  have "Suc i < 65538" using len i by simp
  then have e: "(word_of_nat (Suc i) :: cint) = 2 \<longleftrightarrow> Suc i = 2" by (rule of_nat_eq_2)
  have "auto_dispensed (snd (cycles s run ! i)) \<longleftrightarrow>
          currThreshold (fst (cycles s run ! i)) = Threshold \<and> fst (run ! i) \<noteq> HIGH"
    using i by (simp add: cycles_nth loop_auto_dispensed)
  also have "\<dots> \<longleftrightarrow> Suc i = 2 \<and> fst (run ! i) \<noteq> HIGH"
    using c e by (simp add: Threshold_def)
  also have "\<dots> \<longleftrightarrow> i = 1 \<and> fst (run ! 1) \<noteq> HIGH" by auto
  finally show ?thesis .
qed

lemma count_one:
  assumes "\<And>i. i < length xs \<Longrightarrow> P (xs ! i) \<longleftrightarrow> i = k \<and> Q"
  shows "length (filter P xs) = (if k < length xs \<and> Q then 1 else 0)"
proof -
  have "length (filter P xs) = card {i. i < length xs \<and> P (xs ! i)}"
    by (rule length_filter_conv_card)
  also have "{i. i < length xs \<and> P (xs ! i)} = (if k < length xs \<and> Q then {k} else {})"
    using assms by auto
  also have "card \<dots> = (if k < length xs \<and> Q then 1 else 0)" by simp
  finally show ?thesis .
qed

section \<open>Properties of the stepper motions\<close>

lemma step_loop_replicate:
  "step_loop hi lo i n = concat (replicate (nat (sint n - sint i)) (step_pulse hi lo))"
proof (induction hi lo i n rule: step_loop.induct)
  case (1 hi lo i n)
  show ?case
  proof (cases "sint i < sint n")
    case True
    then have s: "sint (i + 1) = sint i + 1" by (rule sint_succ)
    from True have "nat (sint n - sint i) = Suc (nat (sint n - (sint i + 1)))" by simp
    with True 1 s show ?thesis
      by (simp add: step_loop.simps [of hi lo i n])
  next
    case False
    then show ?thesis by (simp add: step_loop.simps [of hi lo i n])
  qed
qed

lemma step_count_concat:
  "step_count (concat (replicate k (step_pulse hi lo))) = k"
  by (induction k) (simp_all add: step_count_def step_pulse_def stepPin_def HIGH_def LOW_def)

lemma duration_concat:
  "duration_us (concat (replicate k (step_pulse hi lo))) = k * (hi + lo)"
  by (induction k) (simp_all add: duration_us_def step_pulse_def)

lemma step_count_Cons_dir: "step_count (DigitalWrite dirPin v # ops) = step_count ops"
  by (simp add: step_count_def dirPin_def stepPin_def)

lemma duration_Cons_write: "duration_us (DigitalWrite p v # ops) = duration_us ops"
  by (simp add: duration_us_def)

lemma rotate_steps: "step_count (rotateStepper_cfg c) = nat (sint (cfg_steps c * cfg_mult c))"
  by (simp add: rotateStepper_cfg_def step_loop_replicate step_count_Cons_dir step_count_concat)

lemma retract_steps: "step_count (retractStepper_cfg c) = nat (sint (cfg_steps c))"
  by (simp add: retractStepper_cfg_def step_loop_replicate step_count_Cons_dir step_count_concat)

lemma rotate_duration:
  "duration_us (rotateStepper_cfg c) =
     nat (sint (cfg_steps c * cfg_mult c)) * (cfg_rot_hi c + cfg_rot_lo c)"
  by (simp add: rotateStepper_cfg_def step_loop_replicate duration_Cons_write duration_concat)

lemma retract_duration:
  "duration_us (retractStepper_cfg c) =
     nat (sint (cfg_steps c)) * (cfg_ret_hi c + cfg_ret_lo c)"
  by (simp add: retractStepper_cfg_def step_loop_replicate duration_Cons_write duration_concat)

lemma source_motion:
  "step_count rotateStepper = 200" "step_count retractStepper = 100"
  "duration_us rotateStepper = 2000000" "duration_us retractStepper = 1000000"
  by (simp_all add: rotateStepper_def retractStepper_def rotate_steps retract_steps
      rotate_duration retract_duration source_cfg_def stepsPerRevolution_def)

lemma retract_ignores_rotate_cfg:
  "retractStepper_cfg (c\<lparr>cfg_mult := m, cfg_rot_hi := h, cfg_rot_lo := l\<rparr>)
     = retractStepper_cfg c"
  by (simp add: retractStepper_cfg_def)

section \<open>The claims\<close>

subsection \<open>C10: dispense and warning exclude each other\<close>

text \<open>
  C10. With \<open>Threshold = 2\<close> and the block-warning limit 3, no pass fires both the automatic
  dispense and the block-warning beep: the dispense condition (counter equal to 2) and the
  warning condition (counter greater than 3) exclude each other for every counter value,
  reachable or not.
\<close>

theorem dispense_and_warning_exclusive:
  "\<not> (auto_dispensed (snd (loop s b d)) \<and> block_warned (snd (loop s b d))) \<and>
   \<not> (currThreshold (fst (loop s b d)) = Threshold \<and>
      3 < sint (currThreshold (fst (loop s b d))))"
  by (auto simp add: loop_auto_dispensed loop_block_warned Threshold_def)

subsection \<open>C7: scenario B\<close>

text \<open>
  C7. From power-on, with the button never held, the five samples 20, 20, 20, 20, 20
  (near limit 30, \<open>Threshold = 2\<close>, block-warning limit 3) give the counter values
  1, 2, 3, 4, 5; the automatic dispense fires in the second pass only, and the block
  warning fires in the fourth and fifth passes only.
\<close>

theorem scenario_B:
  "map (\<lambda>r. sint (currThreshold (fst r)))
       (cycles power_on (map (Pair LOW) [20, 20, 20, 20, 20]))
     = [1, 2, 3, 4, 5] \<and>
   map (\<lambda>r. auto_dispensed (snd r))
       (cycles power_on (map (Pair LOW) [20, 20, 20, 20, 20]))
     = [False, True, False, False, False] \<and>
   map (\<lambda>r. block_warned (snd r))
       (cycles power_on (map (Pair LOW) [20, 20, 20, 20, 20]))
     = [False, False, False, True, True]"
  by (simp add: loop_state loop_auto_dispensed loop_block_warned near_def power_on_def
      Threshold_def LOW_def HIGH_def)

subsection \<open>C5: a read without echo counts as a near sample\<close>

text \<open>
  C5. When no echo arrives, \<open>getDistance\<close> returns 0, which is below the near limit: the
  pass is the same as one with an echo of zero width (an object touching the sensor), it
  advances the counter by one, and two such reads after power-on fire the automatic
  dispense.
\<close>

theorem no_echo_counts_as_near:
  "getDistance NoEcho = 0 \<and> near (getDistance NoEcho) \<and>
   loop_hw s b NoEcho = loop_hw s b (Echo 0) \<and>
   currThreshold (fst (loop_hw s b NoEcho)) = currThreshold s + 1 \<and>
   auto_dispensed (snd (loop_hw (fst (loop_hw power_on LOW NoEcho)) LOW NoEcho))"
  by (simp add: getDistance_def pulseIn_def trunc_div_def near_def loop_hw_def loop_counter
      loop_auto_dispensed power_on_def Threshold_def LOW_def HIGH_def)

subsection \<open>C4: the block warning is level-triggered\<close>

text \<open>
  C4. A pass emits the block warning exactly when the counter, after this pass's update,
  is greater than 3, whatever the earlier passes did: it repeats in every pass for as long
  as the condition holds. A pass that warns does not fire the automatic dispense, and its
  only buzzer call is the one long beep. A pass whose sample is not near resets the counter
  to 0 and does not warn.
\<close>

theorem block_warning_level_triggered:
  "(block_warned (snd (loop s b d)) \<longleftrightarrow> 3 < sint (currThreshold (fst (loop s b d)))) \<and>
   (block_warned (snd (loop s b d)) \<longrightarrow>
      \<not> auto_dispensed (snd (loop s b d)) \<and>
      actuation (snd (loop s b d))
        = (if b = HIGH then [RotateStepper] else []) @ [Beep 500 1000]) \<and>
   (\<not> near d \<longrightarrow>
      currThreshold (fst (loop s b d)) = 0 \<and> \<not> block_warned (snd (loop s b d)))"
  by (auto simp add: loop_auto_dispensed loop_block_warned loop_actuation loop_counter
      Threshold_def)

theorem block_warning_level_triggered_witness:
  "block_warned (snd (loop \<lparr>buttonState = 0, buttonIsActive = False, currThreshold = 3\<rparr> LOW 20)) \<and>
   actuation (snd (loop \<lparr>buttonState = 0, buttonIsActive = False, currThreshold = 3\<rparr> LOW 20))
     = [Beep 500 1000] \<and>
   \<not> near 35 \<and>
   currThreshold (fst (loop \<lparr>buttonState = 0, buttonIsActive = False, currThreshold = 5\<rparr> LOW 35))
     = 0 \<and>
   \<not> block_warned (snd (loop \<lparr>buttonState = 0, buttonIsActive = False, currThreshold = 5\<rparr> LOW 35))"
proof -
  let ?s3 = "\<lparr>buttonState = 0, buttonIsActive = False, currThreshold = 3\<rparr>"
  let ?s5 = "\<lparr>buttonState = 0, buttonIsActive = False, currThreshold = 5\<rparr>"
  have c: "3 < sint (currThreshold (fst (loop ?s3 LOW 20)))"
    by (simp add: loop_counter near_def)
  have f: "\<not> near 35" by (simp add: near_def)
  from block_warning_level_triggered [of ?s3 LOW 20] c
  have "block_warned (snd (loop ?s3 LOW 20)) \<and>
        actuation (snd (loop ?s3 LOW 20)) = [Beep 500 1000]"
    by (simp add: LOW_def HIGH_def)
  moreover from block_warning_level_triggered [of ?s5 LOW 35] f
  have "currThreshold (fst (loop ?s5 LOW 35)) = 0 \<and> \<not> block_warned (snd (loop ?s5 LOW 35))"
    by blast
  ultimately show ?thesis using f by blast
qed

subsection \<open>C6: what a pass with the button held does to the counter\<close>

text \<open>
  C6, as claimed: a pass with the button held leaves the counter as it was. It does not:
  at power-on, a pass with the button held and a sample of 20 moves the counter from 0
  to 1.
\<close>

theorem manual_pass_advances_counter:
  "buttonIsActive (fst (loop power_on HIGH 20)) \<and>
   currThreshold power_on = 0 \<and>
   currThreshold (fst (loop power_on HIGH 20)) = 1"
  by (simp add: loop_state near_def power_on_def)

text \<open>
  C6, amended. The sensor is read and the counter updated in every pass, before the
  button is looked at again: a pass with the button held advances the counter by one on a
  near sample and resets it to 0 otherwise, exactly as a pass with the button released.
\<close>

theorem manual_pass_counter_update:
  "currThreshold (fst (loop s HIGH d)) = (if sint d < 30 then currThreshold s + 1 else 0) \<and>
   currThreshold (fst (loop s HIGH d)) = currThreshold (fst (loop s LOW d))"
  by (simp add: loop_counter near_def)

subsection \<open>C3: what a pass with the button held actuates\<close>

text \<open>
  C3, as claimed: in a pass with the button held, the block-warning logic does not run and
  the manual dispense motion is the only actuation. It is not: after three near samples, a
  fourth near sample with the button held gives the manual motion and the long warning
  beep.
\<close>

theorem manual_pass_block_warning:
  "buttonIsActive (fst (cycles power_on [(LOW, 20), (LOW, 20), (LOW, 20), (HIGH, 20)] ! 3)) \<and>
   block_warned (snd (cycles power_on [(LOW, 20), (LOW, 20), (LOW, 20), (HIGH, 20)] ! 3)) \<and>
   actuation (snd (cycles power_on [(LOW, 20), (LOW, 20), (LOW, 20), (HIGH, 20)] ! 3))
     = [RotateStepper, Beep 500 1000]"
  by (simp add: loop_state loop_block_warned loop_actuation near_def power_on_def
      Threshold_def LOW_def HIGH_def)

text \<open>
  C3, amended. In a pass with the button held the automatic dispense never fires, whatever
  the counter: there is no pre-beep, no retract and no confirmation beep. The manual
  dispense motion runs once. The block warning is not suppressed: its beep follows the
  manual motion exactly when the counter, updated in this pass, is greater than 3.
\<close>

theorem manual_pass_actuation:
  "buttonIsActive (fst (loop s HIGH d)) \<and>
   \<not> auto_dispensed (snd (loop s HIGH d)) \<and>
   (block_warned (snd (loop s HIGH d)) \<longleftrightarrow> 3 < sint (currThreshold (fst (loop s HIGH d)))) \<and>
   actuation (snd (loop s HIGH d)) =
     RotateStepper #
     (if 3 < sint (currThreshold (fst (loop s HIGH d))) then [Beep 500 1000] else [])"
  by (simp add: loop_auto_dispensed loop_block_warned loop_actuation loop_state)

subsection \<open>C8: the lengths of the two motions\<close>

text \<open>
  C8, as claimed: changing the length of the dispense motion does not change the length of
  the retract motion. It does when the dispense motion is changed through
  \<open>stepsPerRevolution\<close>: with 50 in place of 100 the dispense motion goes from 200 steps to
  100 and the retract motion from 100 steps to 50.
\<close>

theorem steps_constant_changes_retract:
  "step_count (rotateStepper_cfg source_cfg) = 200 \<and>
   step_count (rotateStepper_cfg (source_cfg\<lparr>cfg_steps := 50\<rparr>)) = 100 \<and>
   step_count (retractStepper_cfg source_cfg) = 100 \<and>
   step_count (retractStepper_cfg (source_cfg\<lparr>cfg_steps := 50\<rparr>)) = 50"
  by (simp add: rotate_steps retract_steps source_cfg_def stepsPerRevolution_def)

text \<open>
  C8, amended. As configured, the dispense motion is 200 steps and 2 s of delays, the
  retract motion 100 steps and 1 s: half. The retract motion does not depend on the
  multiplier or on the step delays of the dispense motion. Its number of steps is
  \<open>stepsPerRevolution\<close>, which the dispense motion multiplies.
\<close>

theorem retract_half_of_dispense:
  "step_count rotateStepper = 200 \<and> step_count retractStepper = 100 \<and>
   duration_us rotateStepper = 2000000 \<and> duration_us retractStepper = 1000000 \<and>
   retractStepper_cfg (c\<lparr>cfg_mult := m, cfg_rot_hi := h, cfg_rot_lo := l\<rparr>)
     = retractStepper_cfg c \<and>
   step_count (retractStepper_cfg c) = nat (sint (cfg_steps c)) \<and>
   step_count (rotateStepper_cfg c) = nat (sint (cfg_steps c * cfg_mult c))"
  using source_motion retract_ignores_rotate_cfg [where m = m and h = h and l = l and c = c]
    retract_steps [of c] rotate_steps [of c]
  by simp

subsection \<open>C2: the counter and the length of the run\<close>

text \<open>
  As long as the current run of near samples is shorter than \<open>2^15\<close> passes, the counter is
  its length (\<open>counter_is_run_length_below_wrap\<close>). A 16-bit \<open>int\<close> cannot count further.

  C2, at a run of 32768 near samples after power-on (button released, distance 0, as a
  sensor without echo reports): the run has length 32768 and the counter is -32768.
\<close>

theorem counter_wraps_on_long_run:
  "near_run (map snd (replicate 32768 (LOW, 0 :: cint))) = 32768 \<and>
   sint (currThreshold (final power_on (replicate 32768 (LOW, 0)))) = - 32768"
  by (simp add: final_all_near near_def power_on_def near_run_def)

subsection \<open>C1: the automatic dispense within a run\<close>

text \<open>
  C1, as claimed: the automatic dispense fires exactly once in every maximal run of at
  least two near samples. It fires less often when the button is held in the second pass
  of the run: in a run of three near samples, button held in the second pass only, no pass
  fires it. It fires more often when the 16-bit counter wraps around within the run: in a
  run of 65538 near samples with the button never held, the second and the last pass both
  fire it.
\<close>

theorem run_without_single_dispense:
  "list_all (\<lambda>x. near (snd x)) [(LOW, 20), (HIGH, 20), (LOW, 20)] \<and>
   dispense_count (cycles power_on [(LOW, 20), (HIGH, 20), (LOW, 20)]) = 0 \<and>
   list_all (\<lambda>x. near (snd x)) (replicate 65538 (LOW, 0)) \<and>
   auto_dispensed (snd (cycles power_on (replicate 65538 (LOW, 0)) ! 1)) \<and>
   auto_dispensed (snd (cycles power_on (replicate 65538 (LOW, 0)) ! 65537))"
proof -
  let ?xs = "replicate 65538 (LOW, 0 :: cint)"
  have n: "\<forall>x\<in>set (take k ?xs). near (snd x)" for k
    by (auto simp: near_def dest!: in_set_takeD)
  have "currThreshold (final power_on (take 1 ?xs)) = 1"
    using final_all_near [OF n, of power_on 1] by (simp add: power_on_def)
  moreover have "currThreshold (final power_on (take 65537 ?xs)) = 1"
    using final_all_near [OF n, of power_on 65537] by (simp add: power_on_def)
  ultimately have
    "auto_dispensed (snd (cycles power_on ?xs ! 1)) \<and>
     auto_dispensed (snd (cycles power_on ?xs ! 65537))"
    by (simp add: cycles_nth loop_auto_dispensed loop_counter near_def Threshold_def
        LOW_def HIGH_def)
  moreover have "list_all (\<lambda>x. near (snd x)) ?xs"
    by (simp add: list_all_iff near_def)
  moreover have
    "list_all (\<lambda>x. near (snd x)) [(LOW, 20), (HIGH, 20), (LOW, 20)] \<and>
     dispense_count (cycles power_on [(LOW, 20), (HIGH, 20), (LOW, 20)]) = 0"
    by (simp add: dispense_count_def loop_state loop_auto_dispensed near_def power_on_def
        Threshold_def LOW_def HIGH_def)
  ultimately show ?thesis by blast
qed

text \<open>
  C1, amended. Take any input sequence from power-on and, in it, a run of near samples
  that starts at power-on or right after a sample that is not near, and is at most 65537
  passes long; anything may follow. The automatic dispense fires in a pass of the run
  exactly when that pass is the second of the run (the counter equals \<open>Threshold\<close> for the
  first time) and the button is not held in it. So it fires once in the run when the run
  has at least two passes and the button is released in the second, and not at all
  otherwise.
\<close>

theorem auto_dispense_once_per_run:
  assumes start: "pre = [] \<or> \<not> near (snd (last pre))"
    and run: "\<forall>x\<in>set run. near (snd x)"
    and len: "length run \<le> 65537"
  shows "dispense_count
           (take (length run) (drop (length pre) (cycles power_on (pre @ run @ post))))
           = (if 2 \<le> length run \<and> fst (run ! 1) \<noteq> HIGH then 1 else 0) \<and>
         (\<forall>i<length run.
            auto_dispensed (snd (cycles power_on (pre @ run @ post) ! (length pre + i)))
              \<longleftrightarrow> i = 1 \<and> fst (run ! 1) \<noteq> HIGH)"
proof -
  let ?s = "final power_on pre"
  have z: "currThreshold ?s = 0" using start by (rule run_start)
  have seg: "take (length run) (drop (length pre) (cycles power_on (pre @ run @ post)))
               = cycles ?s run"
    by (simp add: cycles_append length_cycles)
  have pt: "\<And>i. i < length run \<Longrightarrow>
     auto_dispensed (snd (cycles ?s run ! i)) \<longleftrightarrow> i = 1 \<and> fst (run ! 1) \<noteq> HIGH"
    using z run len by (rule run_fires)
  have "length (filter (\<lambda>r. auto_dispensed (snd r)) (cycles ?s run))
          = (if 1 < length (cycles ?s run) \<and> fst (run ! 1) \<noteq> HIGH then 1 else 0)"
    by (rule count_one) (simp add: length_cycles pt)
  then have cnt: "dispense_count
           (take (length run) (drop (length pre) (cycles power_on (pre @ run @ post))))
           = (if 2 \<le> length run \<and> fst (run ! 1) \<noteq> HIGH then 1 else 0)"
    unfolding seg dispense_count_def by (auto simp: length_cycles)
  have "auto_dispensed (snd (cycles power_on (pre @ run @ post) ! (length pre + i)))
           \<longleftrightarrow> i = 1 \<and> fst (run ! 1) \<noteq> HIGH" if i: "i < length run" for i
  proof -
    have "cycles power_on (pre @ run @ post) ! (length pre + i) = cycles ?s run ! i"
      using i by (simp add: cycles_append nth_append length_cycles)
    then show ?thesis using pt [OF i] by simp
  qed
  with cnt show ?thesis by blast
qed

theorem auto_dispense_once_per_run_witness:
  "\<not> near (snd (last [(LOW, 35 :: cint)])) \<and>
   list_all (\<lambda>x. near (snd x)) [(LOW, 20), (LOW, 20), (LOW, 20 :: cint)] \<and>
   dispense_count
     (take 3 (drop 1 (cycles power_on
        [(LOW, 35), (LOW, 20), (LOW, 20), (LOW, 20), (LOW, 35)]))) = 1 \<and>
   auto_dispensed (snd (cycles power_on
        [(LOW, 35), (LOW, 20), (LOW, 20), (LOW, 20), (LOW, 35)] ! 2))"
proof -
  let ?pre = "[(LOW, 35 :: cint)]"
  let ?run = "[(LOW, 20), (LOW, 20), (LOW, 20 :: cint)]"
  let ?post = "[(LOW, 35 :: cint)]"
  have h1: "?pre = [] \<or> \<not> near (snd (last ?pre))" by (simp add: near_def)
  have h2: "\<forall>x\<in>set ?run. near (snd x)" by (simp add: near_def)
  have h3: "length ?run \<le> 65537" by simp
  have r: "fst (?run ! 1) \<noteq> HIGH" by (simp add: LOW_def HIGH_def)
  note t = auto_dispense_once_per_run [OF h1 h2 h3, of ?post]
  from t r have a: "dispense_count
     (take 3 (drop 1 (cycles power_on
        [(LOW, 35), (LOW, 20), (LOW, 20), (LOW, 20), (LOW, 35)]))) = 1"
    by simp
  from t have "auto_dispensed (snd (cycles power_on (?pre @ ?run @ ?post) ! (length ?pre + 1)))
      \<longleftrightarrow> 1 = (1 :: nat) \<and> fst (?run ! 1) \<noteq> HIGH"
    by (elim conjE allE [of _ 1]) simp
  with r have b: "auto_dispensed (snd (cycles power_on
        [(LOW, 35), (LOW, 20), (LOW, 20), (LOW, 20), (LOW, 35)] ! 2))"
    by simp
  from h1 h2 a b show ?thesis by (simp add: list_all_iff)
qed

subsection \<open>C9: the button held in the pass that reaches the threshold\<close>

text \<open>
  In a run of at most 65537 near samples, a button held in the second pass means that no
  pass of the run fires the automatic dispense.
\<close>

lemma held_at_threshold_no_dispense_below_wrap:
  assumes "currThreshold s = 0" and "\<forall>x\<in>set run. near (snd x)"
    and "length run \<le> 65537" and "fst (run ! 1) = HIGH" and "i < length run"
  shows "\<not> auto_dispensed (snd (cycles s run ! i))"
  using run_fires [OF assms(1-3) assms(5)] assms(4) by simp

text \<open>
  C9, at a run of 65538 near samples after power-on, the button held in the second pass
  only: the counter is 2 again in the last pass, the button is released, and the
  automatic dispense fires.
\<close>

theorem held_at_threshold_dispenses_after_wrap:
  "fst (((LOW, 0) # (HIGH, 0) # replicate 65536 (LOW, 0 :: cint)) ! 1) = HIGH \<and>
   list_all (\<lambda>x. near (snd x)) ((LOW, 0) # (HIGH, 0) # replicate 65536 (LOW, 0 :: cint)) \<and>
   auto_dispensed
     (snd (cycles power_on ((LOW, 0) # (HIGH, 0) # replicate 65536 (LOW, 0)) ! 65537))"
proof -
  let ?xs = "(LOW, 0) # (HIGH, 0) # replicate 65536 (LOW, 0 :: cint)"
  have n: "\<forall>x\<in>set (take 65537 ?xs). near (snd x)"
    by (auto simp: near_def dest!: in_set_takeD)
  have "currThreshold (final power_on (take 65537 ?xs)) = 1"
    using final_all_near [OF n, of power_on] by (simp add: power_on_def)
  moreover have "?xs ! 65537 = (LOW, 0)" by simp
  ultimately have "auto_dispensed (snd (cycles power_on ?xs ! 65537))"
    by (simp add: cycles_nth loop_auto_dispensed loop_counter near_def Threshold_def
        LOW_def HIGH_def)
  then show ?thesis by (simp add: near_def list_all_iff)
qed

end
